theory Spec2Isabelle
  imports Main "HOL-Library.Multiset"
begin

section \<open>Python values used by app.py\<close>

text \<open>
  A Python \<open>str\<close> is modelled as a \<open>string\<close>, one \<open>char\<close> per code point (code points
  below 256). On these code points the regular-expression class \<open>\d\<close> is exactly the ten
  ASCII digits.
\<close>

datatype py_error = ValueError | KeyError

text \<open>
  A \<open>datetime\<close> object: the fields read by the handler, and the UTC offset of an aware
  value as whole seconds and microseconds (\<open>None\<close> for a naive value).
\<close>

record datetime =
  year :: int
  month :: int
  day :: int
  hour :: int
  minute :: int
  second :: int
  microsecond :: int
  tzinfo :: "(int \<times> int) option"

text \<open>
  A Python \<open>dict\<close> with \<open>str\<close> keys keeps its keys in insertion order: an association
  list whose keys are distinct (the empty dict is \<open>[]\<close>).
\<close>

type_synonym 'v dict = "(string \<times> 'v) list"

definition dict_contains :: "string \<Rightarrow> 'v dict \<Rightarrow> bool" where
  \<comment> \<open>\<open>k in d\<close>\<close>
  "dict_contains k d = (map_of d k \<noteq> None)"

definition dict_getitem :: "'v dict \<Rightarrow> string \<Rightarrow> py_error + 'v" where
  \<comment> \<open>\<open>d[k]\<close>, raising KeyError on a missing key\<close>
  "dict_getitem d k = (case map_of d k of None \<Rightarrow> Inl KeyError | Some v \<Rightarrow> Inr v)"

fun dict_setitem :: "string \<Rightarrow> 'v \<Rightarrow> 'v dict \<Rightarrow> 'v dict" where
  \<comment> \<open>\<open>d[k] = v\<close>: an existing key keeps its position, a new key goes last\<close>
  "dict_setitem k v [] = [(k, v)]"
| "dict_setitem k v ((k', v') # d) =
     (if k' = k then (k, v) # d else (k', v') # dict_setitem k v d)"

definition dict_keys :: "'v dict \<Rightarrow> string list" where
  \<comment> \<open>\<open>list(d.keys())\<close>\<close>
  "dict_keys d = map fst d"

section \<open>normalize_us_phone\<close>

definition is_digit :: "char \<Rightarrow> bool" where
  \<comment> \<open>the class \<open>\d\<close>\<close>
  "is_digit c = (c \<in> set ''0123456789'')"

definition startswith :: "string \<Rightarrow> string \<Rightarrow> bool" where
  "startswith s p = (take (length p) s = p)"

definition normalize_us_phone :: "string \<Rightarrow> string" where
  "normalize_us_phone phone =
     (let digits = filter is_digit phone;
          digits = (if \<not> startswith digits ''1'' then ''1'' @ digits else digits)
      in ''+'' @ digits)"

section \<open>classify_slot\<close>

definition classify_slot :: "datetime \<Rightarrow> string" where
  "classify_slot dt =
     (let h = hour dt in if 8 \<le> h \<and> h < 12 then ''morning'' else ''afternoon'')"

section \<open>The weekday name of a date\<close>

text \<open>
  \<open>dt.strftime("%A")\<close> is the full English name of \<open>dt.weekday()\<close>, which the datetime
  module computes from the proleptic Gregorian ordinal of the date.
\<close>

definition is_leap :: "int \<Rightarrow> bool" where
  "is_leap y = (y mod 4 = 0 \<and> (y mod 100 \<noteq> 0 \<or> y mod 400 = 0))"

definition days_in_month :: "int \<Rightarrow> int \<Rightarrow> int" where
  "days_in_month y m =
     (if m = 2 \<and> is_leap y then 29
      else [31, 28, 31, 30, 31, 30, 31, 31, 30, 31, 30, 31] ! nat (m - 1))"

definition days_before_year :: "int \<Rightarrow> int" where
  "days_before_year y' =
     (let y = y' - 1 in y * 365 + y div 4 - y div 100 + y div 400)"

definition days_before_month :: "int \<Rightarrow> int \<Rightarrow> int" where
  "days_before_month y m =
     [0, 31, 59, 90, 120, 151, 181, 212, 243, 273, 304, 334] ! nat (m - 1)
       + (if m > 2 \<and> is_leap y then 1 else 0)"

definition ymd2ord :: "int \<Rightarrow> int \<Rightarrow> int \<Rightarrow> int" where
  "ymd2ord y m d = days_before_year y + days_before_month y m + d"

definition weekday :: "datetime \<Rightarrow> int" where
  \<comment> \<open>Monday is 0, Sunday is 6\<close>
  "weekday dt = (ymd2ord (year dt) (month dt) (day dt) + 6) mod 7"

definition strftime_A :: "datetime \<Rightarrow> string" where
  "strftime_A dt =
     [''Monday'', ''Tuesday'', ''Wednesday'', ''Thursday'', ''Friday'', ''Saturday'',
      ''Sunday''] ! nat (weekday dt)"

section \<open>datetime.fromisoformat\<close>

text \<open>
  \<open>datetime.fromisoformat\<close> belongs to the Python standard library, and the set of
  strings it accepts has grown from version to version; app.py fixes no version. The
  model is the format that every version from 3.7 on accepts,
  \<open>YYYY-MM-DD[*HH[:MM[:SS[.fff[fff]]]][+HH:MM[:SS[.ffffff]]]]\<close> where \<open>*\<close> is any single
  character, with the range checks of the \<open>datetime\<close> and \<open>timezone\<close> constructors: a
  string the model accepts is accepted, with the same value, by every version. Outside
  this format the model raises ValueError, as Python 3.7 to 3.10 do; Python 3.11 and
  later accept further strings there (a trailing \<open>Z\<close>, dates without hyphens, week
  dates, fractions of other lengths, offsets without a colon). For this reason the
  grouping loop below takes the parser as an argument: what is proved about the loop
  holds for every parser, and the model is used only where a concrete string is
  evaluated or as a lower bound of what the parser accepts.
\<close>

definition digit_val :: "char \<Rightarrow> int" where
  "digit_val c = int (of_char c) - 48"

fun parse_digits :: "nat \<Rightarrow> string \<Rightarrow> (int \<times> string) option" where
  \<comment> \<open>exactly \<open>n\<close> decimal digits, most significant first, and the rest of the string\<close>
  "parse_digits 0 s = Some (0, s)"
| "parse_digits (Suc n) [] = None"
| "parse_digits (Suc n) (c # s) =
     (if is_digit c
      then (case parse_digits n s of
              None \<Rightarrow> None
            | Some (v, r) \<Rightarrow> Some (digit_val c * 10 ^ n + v, r))
      else None)"

definition expect :: "char \<Rightarrow> string \<Rightarrow> string option" where
  "expect c s = (case s of [] \<Rightarrow> None | x # r \<Rightarrow> if x = c then Some r else None)"

definition parse_isoformat_date :: "string \<Rightarrow> ((int \<times> int \<times> int) \<times> string) option" where
  "parse_isoformat_date s =
     (case parse_digits 4 s of None \<Rightarrow> None | Some (y, s1) \<Rightarrow>
      case expect CHR ''-'' s1 of None \<Rightarrow> None | Some s2 \<Rightarrow>
      case parse_digits 2 s2 of None \<Rightarrow> None | Some (m, s3) \<Rightarrow>
      case expect CHR ''-'' s3 of None \<Rightarrow> None | Some s4 \<Rightarrow>
      case parse_digits 2 s4 of None \<Rightarrow> None | Some (d, s5) \<Rightarrow>
      Some ((y, m, d), s5))"

definition parse_fraction :: "string \<Rightarrow> int option" where
  \<comment> \<open>\<open>fff\<close> or \<open>ffffff\<close>, as microseconds\<close>
  "parse_fraction s =
     (if length s = 3 then map_option (\<lambda>(v, _). v * 1000) (parse_digits 3 s)
      else if length s = 6 then map_option fst (parse_digits 6 s)
      else None)"

definition parse_hh_mm_ss_ff :: "string \<Rightarrow> (int \<times> int \<times> int \<times> int) option" where
  \<comment> \<open>\<open>HH[:MM[:SS[.fff[fff]]]]\<close>\<close>
  "parse_hh_mm_ss_ff s =
     (case parse_digits 2 s of None \<Rightarrow> None | Some (h, s1) \<Rightarrow>
      if s1 = [] then Some (h, 0, 0, 0) else
      case expect CHR '':'' s1 of None \<Rightarrow> None | Some s2 \<Rightarrow>
      case parse_digits 2 s2 of None \<Rightarrow> None | Some (m, s3) \<Rightarrow>
      if s3 = [] then Some (h, m, 0, 0) else
      case expect CHR '':'' s3 of None \<Rightarrow> None | Some s4 \<Rightarrow>
      case parse_digits 2 s4 of None \<Rightarrow> None | Some (sec, s5) \<Rightarrow>
      if s5 = [] then Some (h, m, sec, 0) else
      case expect CHR ''.'' s5 of None \<Rightarrow> None | Some s6 \<Rightarrow>
      case parse_fraction s6 of None \<Rightarrow> None | Some us \<Rightarrow>
      Some (h, m, sec, us))"

definition is_sign :: "char \<Rightarrow> bool" where
  "is_sign c = (c = CHR ''+'' \<or> c = CHR ''-'')"

definition parse_tz :: "string \<Rightarrow> (int \<times> int) option option" where
  \<comment> \<open>nothing, or a sign and \<open>HH:MM[:SS[.ffffff]]\<close> strictly between -24 and 24 hours;
      an offset of zero whole seconds is UTC, whatever its fraction\<close>
  "parse_tz s =
     (case s of
        [] \<Rightarrow> Some None
      | sg # tzstr \<Rightarrow>
          if length tzstr \<notin> {5, 8, 15} then None else
          case parse_hh_mm_ss_ff tzstr of None \<Rightarrow> None | Some (h, m, sec, us) \<Rightarrow>
          let secs = h * 3600 + m * 60 + sec;
              sgn = (if sg = CHR ''-'' then - 1 else 1)
          in if secs < 86400
             then Some (Some (if secs = 0 then (0, 0) else (sgn * secs, sgn * us)))
             else None)"

definition parse_isoformat_time ::
  "string \<Rightarrow> ((int \<times> int \<times> int \<times> int) \<times> (int \<times> int) option) option" where
  "parse_isoformat_time tstr =
     (case parse_hh_mm_ss_ff (takeWhile (\<lambda>c. \<not> is_sign c) tstr) of
        None \<Rightarrow> None
      | Some t \<Rightarrow>
          (case parse_tz (dropWhile (\<lambda>c. \<not> is_sign c) tstr) of
             None \<Rightarrow> None
           | Some tz \<Rightarrow> Some (t, tz)))"

definition check_date_fields :: "int \<Rightarrow> int \<Rightarrow> int \<Rightarrow> bool" where
  "check_date_fields y m d =
     (1 \<le> y \<and> y \<le> 9999 \<and> 1 \<le> m \<and> m \<le> 12 \<and> 1 \<le> d \<and> d \<le> days_in_month y m)"

definition check_time_fields :: "int \<Rightarrow> int \<Rightarrow> int \<Rightarrow> int \<Rightarrow> bool" where
  "check_time_fields h m s us =
     (0 \<le> h \<and> h \<le> 23 \<and> 0 \<le> m \<and> m \<le> 59 \<and> 0 \<le> s \<and> s \<le> 59 \<and> 0 \<le> us \<and> us \<le> 999999)"

definition fromisoformat :: "string \<Rightarrow> py_error + datetime" where
  "fromisoformat date_string =
     (case parse_isoformat_date date_string of
        None \<Rightarrow> Inl ValueError
      | Some ((y, m, d), rest) \<Rightarrow>
          (case (case rest of
                   [] \<Rightarrow> Some ((0, 0, 0, 0), None)
                 | sep # tstr \<Rightarrow> parse_isoformat_time tstr) of
             None \<Rightarrow> Inl ValueError
           | Some ((h, mi, s, us), tz) \<Rightarrow>
               if check_date_fields y m d \<and> check_time_fields h mi s us
               then Inr \<lparr>year = y, month = m, day = d, hour = h, minute = mi, second = s,
                         microsecond = us, tzinfo = tz\<rparr>
               else Inl ValueError))"

section \<open>The grouping loop of get_slots\<close>

text \<open>
  The two containers the loop mutates. A weekday's entry is itself a dict from period
  name to the list of raw strings.
\<close>

record slots_state =
  grouped :: "string list dict dict"
  fallback :: "string list"

text \<open>
  The body of the \<open>try\<close> block for one entry: the exception it raises, if any, and the
  containers as they are at that moment. The parser is a parameter, so that what follows
  holds whatever strings \<open>datetime.fromisoformat\<close> accepts.
\<close>

definition try_body ::
  "(string \<Rightarrow> py_error + datetime) \<Rightarrow> string \<Rightarrow> slots_state \<Rightarrow> py_error option \<times> slots_state"
where
  "try_body parse iso_str st =
     (case parse iso_str of
        Inl e \<Rightarrow> (Some e, st)
      | Inr dt \<Rightarrow>
          let wd = strftime_A dt;
              period = classify_slot dt;
              st1 = (if \<not> dict_contains wd (grouped st)
                     then st\<lparr>grouped :=
                            dict_setitem wd [(''morning'', []), (''afternoon'', [])] (grouped st)\<rparr>
                     else st)
          in (case dict_getitem (grouped st1) wd of
                Inl e \<Rightarrow> (Some e, st1)
              | Inr rec \<Rightarrow>
                  (case dict_getitem rec period of
                     Inl e \<Rightarrow> (Some e, st1)
                   | Inr bucket \<Rightarrow>
                       (None,
                        st1\<lparr>grouped :=
                              dict_setitem wd (dict_setitem period (bucket @ [iso_str]) rec)
                                (grouped st1),
                            fallback := fallback st1 @ [iso_str]\<rparr>))))"

definition loop_body ::
  "(string \<Rightarrow> py_error + datetime) \<Rightarrow> string \<Rightarrow> slots_state \<Rightarrow> slots_state" where
  \<comment> \<open>\<open>except Exception: continue\<close>\<close>
  "loop_body parse iso_str st = snd (try_body parse iso_str st)"

fun slots_loop ::
  "(string \<Rightarrow> py_error + datetime) \<Rightarrow> string list \<Rightarrow> slots_state \<Rightarrow> slots_state" where
  "slots_loop parse [] st = st"
| "slots_loop parse (iso_str # rest) st = slots_loop parse rest (loop_body parse iso_str st)"

record slots_result =
  grouped_slots :: "string list dict dict"
  days :: "string list"
  periods :: "string list"
  fallback_out :: "string list"

definition result_of :: "slots_state \<Rightarrow> slots_result" where
  "result_of st =
     \<lparr>grouped_slots = grouped st, days = dict_keys (grouped st),
      periods = [''morning'', ''afternoon''], fallback_out = fallback st\<rparr>"

definition run_grouping ::
  "(string \<Rightarrow> py_error + datetime) \<Rightarrow> slots_state \<Rightarrow> string list \<Rightarrow> slots_state" where
  \<comment> \<open>lines 114 to 129: both containers are assigned afresh, then the loop runs\<close>
  "run_grouping parse st all_slots = slots_loop parse all_slots (st\<lparr>grouped := [], fallback := []\<rparr>)"

definition group_slots_with ::
  "(string \<Rightarrow> py_error + datetime) \<Rightarrow> string list \<Rightarrow> slots_result" where
  "group_slots_with parse all_slots =
     result_of (run_grouping parse \<lparr>grouped = [], fallback = []\<rparr> all_slots)"

definition group_slots :: "string list \<Rightarrow> slots_result" where
  "group_slots all_slots = group_slots_with fromisoformat all_slots"

section \<open>Reading the result\<close>

text \<open>
  \<open>bucket g d p\<close> is \<open>grouped[d][p]\<close>, empty where a key is missing. An entry is valid
  when the parser returns a value; \<open>day_of\<close> is its weekday name and \<open>lands_in\<close> says
  which bucket it belongs to.
\<close>

definition bucket :: "string list dict dict \<Rightarrow> string \<Rightarrow> string \<Rightarrow> string list" where
  "bucket g d p =
     (case map_of g d of
        None \<Rightarrow> []
      | Some rec \<Rightarrow> (case map_of rec p of None \<Rightarrow> [] | Some b \<Rightarrow> b))"

definition is_valid :: "(string \<Rightarrow> py_error + datetime) \<Rightarrow> string \<Rightarrow> bool" where
  "is_valid parse s = (case parse s of Inl _ \<Rightarrow> False | Inr _ \<Rightarrow> True)"

definition day_of :: "(string \<Rightarrow> py_error + datetime) \<Rightarrow> string \<Rightarrow> string option" where
  "day_of parse s = (case parse s of Inl _ \<Rightarrow> None | Inr dt \<Rightarrow> Some (strftime_A dt))"

definition lands_in :: "(string \<Rightarrow> py_error + datetime) \<Rightarrow> string \<Rightarrow> string \<Rightarrow> string \<Rightarrow> bool" where
  "lands_in parse d p s =
     (case parse s of Inl _ \<Rightarrow> False | Inr dt \<Rightarrow> strftime_A dt = d \<and> classify_slot dt = p)"

text \<open>The keys of a dict after \<open>d[k] = v\<close>.\<close>

definition add_key :: "string list \<Rightarrow> string \<Rightarrow> string list" where
  "add_key ks k = (if k \<in> set ks then ks else ks @ [k])"

text \<open>
  The invariant of the loop: the weekday keys are distinct and every weekday's entry has
  exactly the keys \<open>morning\<close> and \<open>afternoon\<close>, in this order.
\<close>

definition day_record_ok :: "string list dict \<Rightarrow> bool" where
  "day_record_ok rec = (map fst rec = [''morning'', ''afternoon''])"

definition wf_grouped :: "string list dict dict \<Rightarrow> bool" where
  "wf_grouped g = (distinct (map fst g) \<and> list_all (\<lambda>e. day_record_ok (snd e)) g)"

definition new_record :: "string list dict" where
  "new_record = [(''morning'', []), (''afternoon'', [])]"

text \<open>All strings stored in \<open>grouped\<close>, bucket after bucket.\<close>

definition flat_record :: "string list dict \<Rightarrow> string list" where
  "flat_record rec = concat (map snd rec)"

definition all_grouped :: "string list dict dict \<Rightarrow> string list" where
  "all_grouped g = concat (map (\<lambda>e. flat_record (snd e)) g)"

text \<open>
  The weekday names of the valid entries, in input order, and the position of the first
  valid entry of a weekday (the length of the input when there is none).
\<close>

fun days_seen :: "(string \<Rightarrow> py_error + datetime) \<Rightarrow> string list \<Rightarrow> string list" where
  "days_seen parse [] = []"
| "days_seen parse (s # rest) =
     (case day_of parse s of None \<Rightarrow> days_seen parse rest | Some d \<Rightarrow> d # days_seen parse rest)"

definition first_pos :: "(string \<Rightarrow> py_error + datetime) \<Rightarrow> string list \<Rightarrow> string \<Rightarrow> nat" where
  "first_pos parse xs d = length (takeWhile (\<lambda>s. day_of parse s \<noteq> Some d) xs)"

text \<open>
  The index in its bucket of the entry at position \<open>k\<close> of the input: the number of
  earlier entries that land in the same bucket.
\<close>

definition bucket_index ::
  "(string \<Rightarrow> py_error + datetime) \<Rightarrow> string \<Rightarrow> string \<Rightarrow> string list \<Rightarrow> nat \<Rightarrow> nat" where
  "bucket_index parse d p xs k = length (filter (lands_in parse d p) (take k xs))"










section \<open>Dictionary operations\<close>

lemma map_of_setitem: "map_of (dict_setitem k v d) = (map_of d)(k \<mapsto> v)"
  by (induction d) (auto simp: fun_eq_iff)

lemma keys_setitem: "map fst (dict_setitem k v d) = add_key (map fst d) k"
  by (induction d) (force simp: add_key_def)+

lemma setitem_absent: "k \<notin> fst ` set d \<Longrightarrow> dict_setitem k v d = d @ [(k, v)]"
  by (induction d) force+

lemma contains_iff: "dict_contains k d = (k \<in> fst ` set d)"
  by (simp add: dict_contains_def map_of_eq_None_iff)

lemma classify_cases: "classify_slot dt = ''morning'' \<or> classify_slot dt = ''afternoon''"
  by (simp add: classify_slot_def Let_def)

lemma record_lookup:
  "day_record_ok rec \<Longrightarrow> \<exists>b. map_of rec (classify_slot dt) = Some b"
  using classify_cases [of dt]
  by (cases rec; cases "tl rec") (auto simp: day_record_ok_def)

lemma record_ok_setitem:
  "day_record_ok rec \<Longrightarrow> day_record_ok (dict_setitem (classify_slot dt) b rec)"
  using classify_cases [of dt]
  by (auto simp: day_record_ok_def keys_setitem add_key_def)

lemma list_all_setitem:
  "list_all P d \<Longrightarrow> P (k, v) \<Longrightarrow> list_all P (dict_setitem k v d)"
  by (induction d) auto

lemma wf_lookup:
  "wf_grouped g \<Longrightarrow> map_of g d = Some rec \<Longrightarrow> day_record_ok rec"
  by (auto simp: wf_grouped_def list_all_iff dest!: map_of_SomeD)

lemma wf_setitem:
  "wf_grouped g \<Longrightarrow> day_record_ok rec \<Longrightarrow> wf_grouped (dict_setitem d rec g)"
  by (auto simp: wf_grouped_def keys_setitem add_key_def intro: list_all_setitem)

section \<open>One iteration of the loop\<close>

lemma loop_body_invalid: "parse s = Inl e \<Longrightarrow> loop_body parse s st = st"
  by (simp add: loop_body_def try_body_def)

lemma new_record_ok: "day_record_ok new_record"
  by (simp add: new_record_def day_record_ok_def)

lemma try_body_step:
  assumes wf: "wf_grouped (grouped st)" and p: "parse s = Inr dt"
  shows "\<exists>rec b.
           map_of (if dict_contains (strftime_A dt) (grouped st) then grouped st
                   else dict_setitem (strftime_A dt) new_record (grouped st)) (strftime_A dt) = Some rec
         \<and> map_of rec (classify_slot dt) = Some b
         \<and> try_body parse s st =
             (None, \<lparr>grouped =
                       dict_setitem (strftime_A dt)
                         (dict_setitem (classify_slot dt) (b @ [s]) rec)
                         (if dict_contains (strftime_A dt) (grouped st) then grouped st
                          else dict_setitem (strftime_A dt) new_record (grouped st)),
                     fallback = fallback st @ [s]\<rparr>)"
proof -
  let ?wd = "strftime_A dt"
  let ?g1 = "if dict_contains ?wd (grouped st) then grouped st
             else dict_setitem ?wd new_record (grouped st)"
  have "\<exists>rec. map_of ?g1 ?wd = Some rec"
    by (auto simp: dict_contains_def map_of_setitem)
  then obtain rec where rec: "map_of ?g1 ?wd = Some rec" ..
  have "wf_grouped ?g1"
    using wf by (simp add: wf_setitem new_record_ok)
  then have "day_record_ok rec"
    using rec by (rule wf_lookup)
  then obtain b where b: "map_of rec (classify_slot dt) = Some b"
    using record_lookup by blast
  have "try_body parse s st =
          (None, \<lparr>grouped = dict_setitem ?wd (dict_setitem (classify_slot dt) (b @ [s]) rec) ?g1,
                  fallback = fallback st @ [s]\<rparr>)"
    using rec b p
    by (cases "dict_contains ?wd (grouped st)")
       (simp_all add: try_body_def Let_def dict_getitem_def new_record_def)
  with rec b show ?thesis by blast
qed

lemma mset_concat_setitem:
  "mset (concat (map (\<lambda>e. f (snd e)) (dict_setitem k v d)))
     + (case map_of d k of None \<Rightarrow> {#} | Some v0 \<Rightarrow> mset (f v0))
   = mset (concat (map (\<lambda>e. f (snd e)) d)) + mset (f v)"
  by (induction d) auto

lemma flat_record_append:
  assumes "map_of rec p = Some b"
  shows "mset (flat_record (dict_setitem p (b @ [s]) rec)) = mset (flat_record rec) + {#s#}"
  using mset_concat_setitem [of "\<lambda>x. x" p "b @ [s]" rec] assms
  by (simp add: flat_record_def)

lemma all_grouped_setitem:
  assumes "map_of g d = Some rec"
  shows "mset (all_grouped (dict_setitem d rec' g)) + mset (flat_record rec)
           = mset (all_grouped g) + mset (flat_record rec')"
  using mset_concat_setitem [of flat_record d rec' g] assms
  by (simp add: all_grouped_def)

lemma all_grouped_new:
  assumes "map_of g d = None"
  shows "mset (all_grouped (dict_setitem d new_record g)) = mset (all_grouped g)"
  using mset_concat_setitem [of flat_record d new_record g] assms
  by (simp add: all_grouped_def flat_record_def new_record_def)

lemma step_valid:
  assumes wf: "wf_grouped (grouped st)" and p: "parse s = Inr dt"
  shows "wf_grouped (grouped (loop_body parse s st))"
    and "fallback (loop_body parse s st) = fallback st @ [s]"
    and "dict_keys (grouped (loop_body parse s st)) = add_key (dict_keys (grouped st)) (strftime_A dt)"
    and "bucket (grouped (loop_body parse s st)) d q =
           bucket (grouped st) d q @ (if strftime_A dt = d \<and> classify_slot dt = q then [s] else [])"
    and "mset (all_grouped (grouped (loop_body parse s st))) = mset (all_grouped (grouped st)) + {#s#}"
    and "fst (try_body parse s st) = None"
proof -
  let ?wd = "strftime_A dt" and ?p = "classify_slot dt"
  let ?g1 = "if dict_contains ?wd (grouped st) then grouped st
             else dict_setitem ?wd new_record (grouped st)"
  obtain rec b where rec: "map_of ?g1 ?wd = Some rec"
    and b: "map_of rec ?p = Some b"
    and tb: "try_body parse s st =
       (None, \<lparr>grouped = dict_setitem ?wd (dict_setitem ?p (b @ [s]) rec) ?g1,
               fallback = fallback st @ [s]\<rparr>)"
    using try_body_step [of st parse s dt] wf p by blast
  have wf1: "wf_grouped ?g1"
    using wf by (simp add: wf_setitem new_record_ok)
  have ok: "day_record_ok rec"
    using wf1 rec by (rule wf_lookup)
  have g': "grouped (loop_body parse s st) = dict_setitem ?wd (dict_setitem ?p (b @ [s]) rec) ?g1"
    by (simp add: loop_body_def tb)
  show "fst (try_body parse s st) = None"
    by (simp add: tb)
  show "fallback (loop_body parse s st) = fallback st @ [s]"
    by (simp add: loop_body_def tb)
  show "wf_grouped (grouped (loop_body parse s st))"
    unfolding g' by (intro wf_setitem wf1 record_ok_setitem ok)
  have k1: "add_key (map fst ?g1) ?wd = map fst ?g1"
    using rec by (force simp: add_key_def dest!: map_of_SomeD)
  show "dict_keys (grouped (loop_body parse s st)) = add_key (dict_keys (grouped st)) ?wd"
    unfolding g' dict_keys_def keys_setitem k1
    by (auto simp: keys_setitem contains_iff add_key_def)
  have old: "bucket (grouped st) ?wd q = (case map_of rec q of None \<Rightarrow> [] | Some x \<Rightarrow> x)"
    using rec
    by (cases "dict_contains ?wd (grouped st)")
       (auto simp: bucket_def dict_contains_def map_of_setitem new_record_def)
  show "bucket (grouped (loop_body parse s st)) d q =
           bucket (grouped st) d q @ (if ?wd = d \<and> ?p = q then [s] else [])"
  proof (cases "?wd = d")
    case True
    then show ?thesis
      using old b by (auto simp: g' bucket_def map_of_setitem)
  next
    case False
    then show ?thesis
      by (auto simp: g' bucket_def map_of_setitem)
  qed
  have "mset (all_grouped (grouped (loop_body parse s st))) + mset (flat_record rec)
          = mset (all_grouped ?g1) + mset (flat_record (dict_setitem ?p (b @ [s]) rec))"
    unfolding g' using rec by (rule all_grouped_setitem)
  moreover have "mset (all_grouped ?g1) = mset (all_grouped (grouped st))"
    by (simp add: all_grouped_new dict_contains_def)
  ultimately show "mset (all_grouped (grouped (loop_body parse s st))) = mset (all_grouped (grouped st)) + {#s#}"
    using flat_record_append [OF b, of s] by simp
qed

lemma step_any:
  assumes wf: "wf_grouped (grouped st)"
  shows "wf_grouped (grouped (loop_body parse s st))"
    and "fallback (loop_body parse s st) = fallback st @ (if is_valid parse s then [s] else [])"
    and "dict_keys (grouped (loop_body parse s st)) =
           (case day_of parse s of None \<Rightarrow> dict_keys (grouped st)
            | Some d \<Rightarrow> add_key (dict_keys (grouped st)) d)"
    and "bucket (grouped (loop_body parse s st)) d q =
           bucket (grouped st) d q @ (if lands_in parse d q s then [s] else [])"
    and "mset (all_grouped (grouped (loop_body parse s st))) =
           mset (all_grouped (grouped st)) + (if is_valid parse s then {#s#} else {#})"
    and "fst (try_body parse s st) = (case parse s of Inl e \<Rightarrow> Some e | Inr dt \<Rightarrow> None)"
proof -
  show "wf_grouped (grouped (loop_body parse s st))"
    using wf step_valid(1) [of st parse s] by (cases "parse s") (simp_all add: loop_body_invalid)
  show "fallback (loop_body parse s st) = fallback st @ (if is_valid parse s then [s] else [])"
    using wf step_valid(2) [of st parse s]
    by (cases "parse s") (simp_all add: loop_body_invalid is_valid_def)
  show "dict_keys (grouped (loop_body parse s st)) =
           (case day_of parse s of None \<Rightarrow> dict_keys (grouped st)
            | Some d \<Rightarrow> add_key (dict_keys (grouped st)) d)"
    using wf step_valid(3) [of st parse s]
    by (cases "parse s") (simp_all add: loop_body_invalid day_of_def)
  show "bucket (grouped (loop_body parse s st)) d q =
           bucket (grouped st) d q @ (if lands_in parse d q s then [s] else [])"
    using wf step_valid(4) [of st parse s]
    by (cases "parse s") (simp_all add: loop_body_invalid lands_in_def)
  show "mset (all_grouped (grouped (loop_body parse s st))) =
           mset (all_grouped (grouped st)) + (if is_valid parse s then {#s#} else {#})"
    using wf step_valid(5) [of st parse s]
    by (cases "parse s") (simp_all add: loop_body_invalid is_valid_def)
  show "fst (try_body parse s st) = (case parse s of Inl e \<Rightarrow> Some e | Inr dt \<Rightarrow> None)"
    using wf step_valid(6) [of st parse s]
    by (cases "parse s") (simp_all add: try_body_def)
qed

section \<open>The whole loop\<close>

lemma loop_append:
  "slots_loop parse (xs @ ys) st = slots_loop parse ys (slots_loop parse xs st)"
  by (induction xs arbitrary: st) simp_all

lemma loop_wf:
  "wf_grouped (grouped st) \<Longrightarrow> wf_grouped (grouped (slots_loop parse xs st))"
  by (induction xs arbitrary: st) (simp_all add: step_any(1))

lemma loop_fallback:
  "wf_grouped (grouped st) \<Longrightarrow>
   fallback (slots_loop parse xs st) = fallback st @ filter (is_valid parse) xs"
  by (induction xs arbitrary: st) (simp_all add: step_any(1,2))

lemma loop_bucket:
  "wf_grouped (grouped st) \<Longrightarrow>
   bucket (grouped (slots_loop parse xs st)) d q
     = bucket (grouped st) d q @ filter (lands_in parse d q) xs"
  by (induction xs arbitrary: st) (simp_all add: step_any(1,4))

lemma loop_mset:
  "wf_grouped (grouped st) \<Longrightarrow>
   mset (all_grouped (grouped (slots_loop parse xs st)))
     = mset (all_grouped (grouped st)) + mset (filter (is_valid parse) xs)"
  by (induction xs arbitrary: st) (simp_all add: step_any(1,5))

lemma loop_keys:
  "wf_grouped (grouped st) \<Longrightarrow>
   dict_keys (grouped (slots_loop parse xs st))
     = foldl add_key (dict_keys (grouped st)) (days_seen parse xs)"
  by (induction xs arbitrary: st) (simp_all add: step_any(1,3) split: option.splits)

lemma wf_empty: "wf_grouped []"
  by (simp add: wf_grouped_def)

section \<open>The order of the weekday keys\<close>

lemma days_seen_append:
  "days_seen parse (xs @ ys) = days_seen parse xs @ days_seen parse ys"
  by (induction xs) (simp_all split: option.splits)

lemma set_days_seen:
  "set (days_seen parse xs) = {d. \<exists>s\<in>set xs. day_of parse s = Some d}"
  by (induction xs) (auto split: option.splits)

lemma set_foldl_add_key: "set (foldl add_key ks ws) = set ks \<union> set ws"
  by (induction ws arbitrary: ks) (auto simp: add_key_def)

lemma distinct_foldl_add_key: "distinct ks \<Longrightarrow> distinct (foldl add_key ks ws)"
  by (induction ws arbitrary: ks) (auto simp: add_key_def)

lemma first_pos_old:
  assumes "d \<in> set (days_seen parse ys)"
  shows "first_pos parse (ys @ zs) d = first_pos parse ys d"
    and "first_pos parse ys d < length ys"
proof -
  obtain s where s: "s \<in> set ys" "day_of parse s = Some d"
    using assms by (auto simp: set_days_seen)
  then show "first_pos parse (ys @ zs) d = first_pos parse ys d"
    by (simp add: first_pos_def takeWhile_append1 [of s])
  have "takeWhile (\<lambda>s. day_of parse s \<noteq> Some d) ys \<noteq> ys"
    using s by (auto simp: takeWhile_eq_all_conv)
  then show "first_pos parse ys d < length ys"
    unfolding first_pos_def
    by (metis length_takeWhile_le le_neq_implies_less takeWhile_eq_take take_all_iff order_refl)
qed

lemma first_pos_new:
  assumes "d \<notin> set (days_seen parse ys)" and "day_of parse s = Some d"
  shows "first_pos parse (ys @ [s]) d = length ys"
proof -
  have "\<forall>x\<in>set ys. day_of parse x \<noteq> Some d"
    using assms(1) by (auto simp: set_days_seen)
  then show ?thesis
    using assms(2) by (simp add: first_pos_def takeWhile_append2)
qed

lemma add_key_old: "k \<in> set ks \<Longrightarrow> add_key ks k = ks"
  by (simp add: add_key_def)

lemma add_key_new: "k \<notin> set ks \<Longrightarrow> add_key ks k = ks @ [k]"
  by (simp add: add_key_def)

lemma keys_sorted_by_first_pos:
  "sorted_wrt (\<lambda>a b. first_pos parse xs a < first_pos parse xs b)
     (foldl add_key [] (days_seen parse xs))"
proof (induction xs rule: rev_induct)
  case Nil
  show ?case by simp
next
  case (snoc s ys)
  let ?K = "foldl add_key [] (days_seen parse ys)"
  have K: "set ?K = set (days_seen parse ys)"
    by (simp add: set_foldl_add_key)
  have old: "sorted_wrt (\<lambda>a b. first_pos parse (ys @ [s]) a < first_pos parse (ys @ [s]) b) ?K"
    using snoc.IH
    by (rule sorted_wrt_mono_rel [rotated]) (simp add: K first_pos_old(1))
  show ?case
  proof (cases "day_of parse s")
    case None
    then show ?thesis using old by (simp add: days_seen_append)
  next
    case (Some d)
    show ?thesis
    proof (cases "d \<in> set ?K")
      case True
      then show ?thesis using old Some by (simp add: days_seen_append add_key_old)
    next
      case False
      then have new: "first_pos parse (ys @ [s]) d = length ys"
        using Some K by (simp add: first_pos_new)
      have "\<forall>a\<in>set ?K. first_pos parse (ys @ [s]) a < first_pos parse (ys @ [s]) d"
        using K new by (simp add: first_pos_old)
      then show ?thesis
        using old Some False by (simp add: days_seen_append add_key_new sorted_wrt_append)
    qed
  qed
qed

section \<open>The result of the grouping\<close>

lemma run_grouping_loop:
  "run_grouping parse st xs = slots_loop parse xs \<lparr>grouped = [], fallback = []\<rparr>"
  by (cases st) (simp add: run_grouping_def)

lemma empty_state:
  "bucket [] d q = []" "dict_keys [] = []" "all_grouped [] = []"
  by (simp_all add: bucket_def dict_keys_def all_grouped_def)

lemma result_state:
  "grouped_slots (group_slots_with parse xs)
     = grouped (slots_loop parse xs \<lparr>grouped = [], fallback = []\<rparr>)"
  "fallback_out (group_slots_with parse xs)
     = fallback (slots_loop parse xs \<lparr>grouped = [], fallback = []\<rparr>)"
  "days (group_slots_with parse xs)
     = dict_keys (grouped (slots_loop parse xs \<lparr>grouped = [], fallback = []\<rparr>))"
  "periods (group_slots_with parse xs) = [''morning'', ''afternoon'']"
  by (simp_all add: group_slots_with_def result_of_def run_grouping_loop)

lemma result_fallback:
  "fallback_out (group_slots_with parse xs) = filter (is_valid parse) xs"
  using loop_fallback [of "\<lparr>grouped = [], fallback = []\<rparr>" parse xs]
  by (simp add: result_state wf_empty)

lemma result_bucket:
  "bucket (grouped_slots (group_slots_with parse xs)) d q = filter (lands_in parse d q) xs"
  using loop_bucket [of "\<lparr>grouped = [], fallback = []\<rparr>" parse xs d q]
  by (simp add: result_state wf_empty empty_state)

lemma result_days:
  "days (group_slots_with parse xs) = foldl add_key [] (days_seen parse xs)"
  using loop_keys [of "\<lparr>grouped = [], fallback = []\<rparr>" parse xs]
  by (simp add: result_state wf_empty empty_state)

lemma result_keys:
  "dict_keys (grouped_slots (group_slots_with parse xs)) = days (group_slots_with parse xs)"
  by (simp add: result_state)

lemma result_mset:
  "mset (all_grouped (grouped_slots (group_slots_with parse xs))) = mset (filter (is_valid parse) xs)"
  using loop_mset [of "\<lparr>grouped = [], fallback = []\<rparr>" parse xs]
  by (simp add: result_state wf_empty empty_state)

lemma result_wf: "wf_grouped (grouped_slots (group_slots_with parse xs))"
  using loop_wf [of "\<lparr>grouped = [], fallback = []\<rparr>" parse xs]
  by (simp add: result_state wf_empty)

section \<open>Properties of the handler\<close>

text \<open>
  C1. A parsed timestamp is classified as morning exactly when its hour is in [8, 12),
  and as afternoon for every other hour; hour 8 is morning, hours 12 and 7 are
  afternoon. In the grouping, the morning bucket of a weekday holds exactly the valid
  entries of that weekday with an hour in [8, 12), the afternoon bucket the other valid
  entries of that weekday.
\<close>

theorem classify_slot_morning_iff:
  "(classify_slot dt = ''morning'') = (8 \<le> hour dt \<and> hour dt < 12)
   \<and> (classify_slot dt = ''afternoon'') = (\<not> (8 \<le> hour dt \<and> hour dt < 12))
   \<and> classify_slot (dt\<lparr>hour := 8\<rparr>) = ''morning''
   \<and> classify_slot (dt\<lparr>hour := 12\<rparr>) = ''afternoon''
   \<and> classify_slot (dt\<lparr>hour := 7\<rparr>) = ''afternoon''
   \<and> bucket (grouped_slots (group_slots_with parse xs)) d ''morning''
       = filter (\<lambda>s. case parse s of Inl e \<Rightarrow> False
                      | Inr t \<Rightarrow> strftime_A t = d \<and> 8 \<le> hour t \<and> hour t < 12) xs
   \<and> bucket (grouped_slots (group_slots_with parse xs)) d ''afternoon''
       = filter (\<lambda>s. case parse s of Inl e \<Rightarrow> False
                      | Inr t \<Rightarrow> strftime_A t = d \<and> \<not> (8 \<le> hour t \<and> hour t < 12)) xs"
proof -
  have m: "lands_in parse d ''morning'' =
      (\<lambda>s. case parse s of Inl e \<Rightarrow> False
            | Inr t \<Rightarrow> strftime_A t = d \<and> 8 \<le> hour t \<and> hour t < 12)"
    by (auto simp: lands_in_def classify_slot_def Let_def fun_eq_iff split: sum.splits if_splits)
  have a: "lands_in parse d ''afternoon'' =
      (\<lambda>s. case parse s of Inl e \<Rightarrow> False
            | Inr t \<Rightarrow> strftime_A t = d \<and> \<not> (8 \<le> hour t \<and> hour t < 12))"
    by (auto simp: lands_in_def classify_slot_def Let_def fun_eq_iff split: sum.splits if_splits)
  have "classify_slot dt = ''morning'' \<longleftrightarrow> 8 \<le> hour dt \<and> hour dt < 12"
    by (simp add: classify_slot_def Let_def)
  moreover have "classify_slot dt = ''afternoon'' \<longleftrightarrow> \<not> (8 \<le> hour dt \<and> hour dt < 12)"
    by (simp add: classify_slot_def Let_def)
  moreover have "classify_slot (dt\<lparr>hour := 8\<rparr>) = ''morning''"
    and "classify_slot (dt\<lparr>hour := 12\<rparr>) = ''afternoon''"
    and "classify_slot (dt\<lparr>hour := 7\<rparr>) = ''afternoon''"
    by (simp_all add: classify_slot_def Let_def)
  ultimately show ?thesis
    using result_bucket [of parse xs d "''morning''"]
      result_bucket [of parse xs d "''afternoon''"]
    by (simp only: m a simp_thms)
qed

theorem classify_slot_morning_iff_witness:
  "bucket (grouped_slots (group_slots
      [''2024-06-10T08:00:00'', ''2024-06-10T12:00:00'', ''2024-06-10T07:59:00'']))
      ''Monday'' ''morning'' = [''2024-06-10T08:00:00'']
   \<and> bucket (grouped_slots (group_slots
      [''2024-06-10T08:00:00'', ''2024-06-10T12:00:00'', ''2024-06-10T07:59:00'']))
      ''Monday'' ''afternoon'' = [''2024-06-10T12:00:00'', ''2024-06-10T07:59:00'']"
proof -
  let ?xs = "[''2024-06-10T08:00:00'', ''2024-06-10T12:00:00'', ''2024-06-10T07:59:00'']"
  have m: "filter (\<lambda>s. case fromisoformat s of Inl e \<Rightarrow> False
                      | Inr t \<Rightarrow> strftime_A t = ''Monday'' \<and> 8 \<le> hour t \<and> hour t < 12) ?xs
           = [''2024-06-10T08:00:00'']"
    by code_simp
  have a: "filter (\<lambda>s. case fromisoformat s of Inl e \<Rightarrow> False
                      | Inr t \<Rightarrow> strftime_A t = ''Monday'' \<and> \<not> (8 \<le> hour t \<and> hour t < 12)) ?xs
           = [''2024-06-10T12:00:00'', ''2024-06-10T07:59:00'']"
    by code_simp
  show ?thesis
    using classify_slot_morning_iff [where parse = fromisoformat and xs = ?xs and d = "''Monday''"]
    unfolding group_slots_def m a by blast
qed

text \<open>
  C4. On the empty input the grouper returns an empty mapping, no days, the two period
  names and an empty fallback list; the period names are the same for every input.
\<close>

theorem group_slots_empty:
  "group_slots_with parse [] =
     \<lparr>grouped_slots = [], days = [], periods = [''morning'', ''afternoon''], fallback_out = []\<rparr>
   \<and> periods (group_slots_with parse xs) = [''morning'', ''afternoon'']"
  by (simp add: group_slots_with_def result_of_def run_grouping_def dict_keys_def)

text \<open>
  C10. \<open>normalize_us_phone\<close> returns \<open>+\<close> followed only by the decimal digits of its
  input, with a \<open>1\<close> put in front unless the digits already start with \<open>1\<close>; the result
  always starts with \<open>+1\<close>, and an input without digits gives \<open>+1\<close>.
\<close>

theorem normalize_us_phone_shape:
  "take 2 (normalize_us_phone phone) = ''+1''
   \<and> hd (normalize_us_phone phone) = CHR ''+''
   \<and> filter is_digit (tl (normalize_us_phone phone)) = tl (normalize_us_phone phone)
   \<and> tl (normalize_us_phone phone) =
       (if startswith (filter is_digit phone) ''1'' then filter is_digit phone
        else ''1'' @ filter is_digit phone)
   \<and> (filter is_digit phone = [] \<longrightarrow> normalize_us_phone phone = ''+1'')"
proof -
  have one: "is_digit CHR ''1''"
    by (simp add: is_digit_def)
  define ds where "ds = filter is_digit phone"
  have all: "filter is_digit ds = ds"
    by (simp add: ds_def)
  have r: "normalize_us_phone phone = CHR ''+'' # (if startswith ds ''1'' then ds else CHR ''1'' # ds)"
    by (simp add: normalize_us_phone_def Let_def ds_def)
  have "take 2 (normalize_us_phone phone) = ''+1''"
    unfolding r by (cases ds) (auto simp: startswith_def)
  moreover have "filter is_digit (tl (normalize_us_phone phone)) = tl (normalize_us_phone phone)"
    unfolding r by (simp add: all one)
  moreover have "filter is_digit phone = [] \<longrightarrow> normalize_us_phone phone = ''+1''"
    unfolding r ds_def [symmetric] by (simp add: startswith_def)
  ultimately show ?thesis
    unfolding ds_def [symmetric] by (simp add: r)
qed

theorem normalize_us_phone_shape_witness:
  "filter is_digit ''call me'' = [] \<and> normalize_us_phone ''call me'' = ''+1''"
proof -
  have h: "filter is_digit ''call me'' = []"
    by code_simp
  show ?thesis
    using normalize_us_phone_shape [of "''call me''"] h by blast
qed

text \<open>
  C2. The fallback list is as long as all buckets of all weekdays together, and a string
  is in the fallback list exactly when it is in some bucket: the buckets, put end to
  end, are a rearrangement of the fallback list.
\<close>

theorem fallback_matches_grouped:
  "length (fallback_out (group_slots_with parse xs))
     = (\<Sum>e\<leftarrow>grouped_slots (group_slots_with parse xs). \<Sum>b\<leftarrow>snd e. length (snd b))
   \<and> set (fallback_out (group_slots_with parse xs))
     = (\<Union>e\<in>set (grouped_slots (group_slots_with parse xs)). \<Union>b\<in>set (snd e). set (snd b))
   \<and> mset (fallback_out (group_slots_with parse xs))
     = mset (all_grouped (grouped_slots (group_slots_with parse xs)))"
proof -
  let ?r = "group_slots_with parse xs"
  have perm: "mset (fallback_out ?r) = mset (all_grouped (grouped_slots ?r))"
    by (simp add: result_fallback result_mset)
  have len: "length (all_grouped g) = (\<Sum>e\<leftarrow>g. \<Sum>b\<leftarrow>snd e. length (snd b))" for g
    by (simp add: all_grouped_def flat_record_def length_concat comp_def)
  have mem: "set (all_grouped g) = (\<Union>e\<in>set g. \<Union>b\<in>set (snd e). set (snd b))" for g
    by (simp add: all_grouped_def flat_record_def)
  have "length (fallback_out ?r) = length (all_grouped (grouped_slots ?r))"
    using perm by (rule mset_eq_length)
  moreover have "set (fallback_out ?r) = set (all_grouped (grouped_slots ?r))"
    using perm by (rule mset_eq_setD)
  ultimately show ?thesis
    using perm by (simp only: len mem simp_thms)
qed

theorem fallback_matches_grouped_witness:
  "length (fallback_out (group_slots [''2024-06-11T14:00:00'', ''nope'', ''2024-06-10T09:00:00'']))
     = (\<Sum>e\<leftarrow>grouped_slots
           (group_slots [''2024-06-11T14:00:00'', ''nope'', ''2024-06-10T09:00:00'']).
          \<Sum>b\<leftarrow>snd e. length (snd b))
   \<and> fallback_out (group_slots [''2024-06-11T14:00:00'', ''nope'', ''2024-06-10T09:00:00''])
     = [''2024-06-11T14:00:00'', ''2024-06-10T09:00:00'']"
proof -
  have "fallback_out (group_slots [''2024-06-11T14:00:00'', ''nope'', ''2024-06-10T09:00:00''])
     = [''2024-06-11T14:00:00'', ''2024-06-10T09:00:00'']"
    by code_simp
  then show ?thesis
    using fallback_matches_grouped
      [of fromisoformat "[''2024-06-11T14:00:00'', ''nope'', ''2024-06-10T09:00:00'']"]
    unfolding group_slots_def by blast
qed

section \<open>Entries that fail to parse\<close>

lemma loop_filter_valid:
  "slots_loop parse (filter (is_valid parse) xs) st = slots_loop parse xs st"
proof (induction xs arbitrary: st)
  case Nil
  show ?case by simp
next
  case (Cons s xs)
  show ?case
  proof (cases "parse s")
    case (Inl e)
    then show ?thesis
      using Cons.IH by (simp add: is_valid_def loop_body_invalid)
  next
    case (Inr dt)
    then show ?thesis
      using Cons.IH by (simp add: is_valid_def)
  qed
qed

lemma loop_drop_invalid:
  "parse s = Inl e \<Longrightarrow> slots_loop parse (xs @ s # ys) st = slots_loop parse (xs @ ys) st"
  by (simp add: loop_append loop_body_invalid)

lemma run_grouping_wf: "wf_grouped (grouped (run_grouping parse st xs))"
  using loop_wf [of "\<lparr>grouped = [], fallback = []\<rparr>" parse xs]
  by (simp add: run_grouping_loop wf_empty)

text \<open>
  C3. An entry that fails to parse changes nothing: the result is the one obtained
  without it, it is in neither the fallback list nor a bucket, and the entries after it
  are processed as if it were not there. In every state the loop reaches, the only
  exception the body of the \<open>try\<close> block raises is the parser's, which the handler
  discards; so the grouping returns a result for every input.
\<close>

theorem invalid_entries_are_skipped:
  "(parse s = Inl e \<longrightarrow>
      group_slots_with parse (xs @ s # ys) = group_slots_with parse (xs @ ys)
      \<and> s \<notin> set (fallback_out (group_slots_with parse zs))
      \<and> s \<notin> set (all_grouped (grouped_slots (group_slots_with parse zs)))
      \<and> loop_body parse s st = st)
   \<and> fst (try_body parse s (run_grouping parse st zs))
       = (case parse s of Inl err \<Rightarrow> Some err | Inr dt \<Rightarrow> None)
   \<and> group_slots_with parse zs = group_slots_with parse (filter (is_valid parse) zs)"
proof -
  have skip: "group_slots_with parse (xs @ s # ys) = group_slots_with parse (xs @ ys)"
    if "parse s = Inl e"
    using that by (simp add: group_slots_with_def run_grouping_loop loop_drop_invalid)
  have "set (all_grouped (grouped_slots (group_slots_with parse zs)))
          = set (filter (is_valid parse) zs)"
    using result_mset [of parse zs] by (rule mset_eq_setD)
  then have out: "s \<notin> set (fallback_out (group_slots_with parse zs))
      \<and> s \<notin> set (all_grouped (grouped_slots (group_slots_with parse zs)))"
    if "parse s = Inl e"
    using that by (simp add: result_fallback is_valid_def)
  have raised: "fst (try_body parse s (run_grouping parse st zs))
       = (case parse s of Inl err \<Rightarrow> Some err | Inr dt \<Rightarrow> None)"
    using run_grouping_wf by (rule step_any(6))
  have same: "group_slots_with parse zs = group_slots_with parse (filter (is_valid parse) zs)"
    by (simp add: group_slots_with_def run_grouping_loop loop_filter_valid)
  show ?thesis
    using skip out raised same by (simp add: loop_body_invalid)
qed

theorem invalid_entries_are_skipped_witness:
  "fromisoformat ''not-a-date'' = Inl ValueError
   \<and> group_slots_with fromisoformat ([] @ ''not-a-date'' # [''2024-06-10T09:00:00'', ''garbage''])
       = group_slots_with fromisoformat ([] @ [''2024-06-10T09:00:00'', ''garbage''])
   \<and> ''not-a-date'' \<notin> set (fallback_out (group_slots_with fromisoformat
         [''not-a-date'', ''2024-06-10T09:00:00'', ''garbage'']))"
proof -
  have h: "fromisoformat ''not-a-date'' = Inl ValueError"
    by code_simp
  show ?thesis
    using h invalid_entries_are_skipped
      [of fromisoformat "''not-a-date''" ValueError "[]" "[''2024-06-10T09:00:00'', ''garbage'']"
        "[''not-a-date'', ''2024-06-10T09:00:00'', ''garbage'']"]
    by blast
qed

section \<open>Order within a bucket\<close>

lemma filter_nth_rank:
  assumes "k < length xs" and "P (xs ! k)"
  shows "length (filter P (take k xs)) < length (filter P xs)"
    and "filter P xs ! length (filter P (take k xs)) = xs ! k"
proof -
  have "xs = take k xs @ xs ! k # drop (Suc k) xs"
    using assms(1) by (rule id_take_nth_drop)
  then have "filter P xs = filter P (take k xs) @ filter P (xs ! k # drop (Suc k) xs)"
    by (metis filter_append)
  then have eq: "filter P xs = filter P (take k xs) @ xs ! k # filter P (drop (Suc k) xs)"
    using assms(2) by simp
  have "length (filter P xs)
          = length (filter P (take k xs) @ xs ! k # filter P (drop (Suc k) xs))"
    using eq by (rule arg_cong)
  then show "length (filter P (take k xs)) < length (filter P xs)"
    by simp
  have "filter P xs ! length (filter P (take k xs))
          = (filter P (take k xs) @ xs ! k # filter P (drop (Suc k) xs))
              ! length (filter P (take k xs))"
    using eq by (rule arg_cong)
  then show "filter P xs ! length (filter P (take k xs)) = xs ! k"
    by (simp only: nth_append_length)
qed

lemma filter_rank_mono:
  assumes "i < j" and "j \<le> length xs" and "P (xs ! i)"
  shows "length (filter P (take i xs)) < length (filter P (take j xs))"
proof -
  have "i < length (take j xs)" and "P (take j xs ! i)"
    using assms by simp_all
  then have "length (filter P (take i (take j xs))) < length (filter P (take j xs))"
    by (rule filter_nth_rank(1))
  moreover have "take i (take j xs) = take i xs"
    using assms(1) by (simp add: min_def)
  ultimately show ?thesis by simp
qed

text \<open>
  C5. Every bucket is the input filtered to the entries that land in it, and the
  fallback list is the input filtered to the valid entries, both in input order. So of
  two valid entries at positions \<open>i < j\<close> that land in the same bucket, the one from
  position \<open>i\<close> stands before the one from position \<open>j\<close> in that bucket.
\<close>

theorem order_preserved:
  "bucket (grouped_slots (group_slots_with parse xs)) d q = filter (lands_in parse d q) xs
   \<and> fallback_out (group_slots_with parse xs) = filter (is_valid parse) xs
   \<and> (i < j \<and> j < length xs \<and> lands_in parse d q (xs ! i) \<and> lands_in parse d q (xs ! j) \<longrightarrow>
        bucket_index parse d q xs i < bucket_index parse d q xs j
        \<and> bucket_index parse d q xs j
            < length (bucket (grouped_slots (group_slots_with parse xs)) d q)
        \<and> bucket (grouped_slots (group_slots_with parse xs)) d q ! bucket_index parse d q xs i
            = xs ! i
        \<and> bucket (grouped_slots (group_slots_with parse xs)) d q ! bucket_index parse d q xs j
            = xs ! j)"
  by (simp add: result_bucket result_fallback bucket_index_def filter_nth_rank filter_rank_mono)

theorem order_preserved_witness:
  "(0::nat) < 2 \<and> 2 < length [''2024-06-10T09:00:00'', ''garbage'', ''2024-06-10T10:30:00'']
   \<and> lands_in fromisoformat ''Monday'' ''morning''
        ([''2024-06-10T09:00:00'', ''garbage'', ''2024-06-10T10:30:00''] ! 0)
   \<and> lands_in fromisoformat ''Monday'' ''morning''
        ([''2024-06-10T09:00:00'', ''garbage'', ''2024-06-10T10:30:00''] ! 2)
   \<and> bucket_index fromisoformat ''Monday'' ''morning''
        [''2024-06-10T09:00:00'', ''garbage'', ''2024-06-10T10:30:00''] 0
       < bucket_index fromisoformat ''Monday'' ''morning''
        [''2024-06-10T09:00:00'', ''garbage'', ''2024-06-10T10:30:00''] 2"
proof -
  let ?xs = "[''2024-06-10T09:00:00'', ''garbage'', ''2024-06-10T10:30:00'']"
  have a: "lands_in fromisoformat ''Monday'' ''morning'' (?xs ! 0)"
    by code_simp
  have b: "lands_in fromisoformat ''Monday'' ''morning'' (?xs ! 2)"
    by code_simp
  have c: "(0::nat) < 2 \<and> 2 < length ?xs"
    by simp
  show ?thesis
    using a b c order_preserved [of fromisoformat ?xs "''Monday''" "''morning''" 0 2]
    by blast
qed

section \<open>Weekday keys\<close>

lemma run_grouping_snoc:
  "run_grouping parse st (xs @ [s]) = loop_body parse s (run_grouping parse st xs)"
  by (simp add: run_grouping_def loop_append)

lemma new_record_lookup:
  "map_of new_record (classify_slot dt) = Some b \<Longrightarrow> b = []"
  using classify_cases [of dt] by (auto simp: new_record_def)

lemma new_record_append:
  "dict_setitem (classify_slot dt) [s] new_record
     = [(''morning'', if classify_slot dt = ''morning'' then [s] else []),
        (''afternoon'', if classify_slot dt = ''afternoon'' then [s] else [])]"
proof (cases "classify_slot dt = ''morning''")
  case True
  then show ?thesis
    by (simp add: new_record_def)
next
  case False
  then have "classify_slot dt = ''afternoon''"
    using classify_cases [of dt] by blast
  then show ?thesis
    by (simp add: new_record_def)
qed

lemma step_first_occurrence:
  assumes wf: "wf_grouped (grouped st)" and p: "parse s = Inr dt"
    and new: "\<not> dict_contains (strftime_A dt) (grouped st)"
  shows "map_of (grouped (loop_body parse s st)) (strftime_A dt)
           = Some [(''morning'', if classify_slot dt = ''morning'' then [s] else []),
                   (''afternoon'', if classify_slot dt = ''afternoon'' then [s] else [])]"
proof -
  let ?wd = "strftime_A dt" and ?p = "classify_slot dt"
  let ?g1 = "if dict_contains ?wd (grouped st) then grouped st
             else dict_setitem ?wd new_record (grouped st)"
  obtain rec b where rec: "map_of ?g1 ?wd = Some rec"
    and b: "map_of rec ?p = Some b"
    and tb: "try_body parse s st =
       (None, \<lparr>grouped = dict_setitem ?wd (dict_setitem ?p (b @ [s]) rec) ?g1,
               fallback = fallback st @ [s]\<rparr>)"
    using try_body_step [of st parse s dt] wf p by blast
  have r: "rec = new_record"
    using rec new by (simp add: map_of_setitem)
  have e: "b = []"
    using b unfolding r by (rule new_record_lookup)
  have "map_of (grouped (loop_body parse s st)) ?wd = Some (dict_setitem ?p [s] new_record)"
    by (simp add: loop_body_def tb map_of_setitem r e)
  then show ?thesis
    by (simp only: new_record_append)
qed

text \<open>
  C6. \<open>days\<close> lists the weekday keys of the grouped mapping, each once, ordered by the
  position of the first valid entry of that weekday in the input: a Tuesday entry
  followed by a Monday entry gives Tuesday before Monday, which is neither the
  alphabetical nor the calendar order.
\<close>

theorem days_first_insertion_order:
  "days (group_slots_with parse xs) = dict_keys (grouped_slots (group_slots_with parse xs))
   \<and> distinct (days (group_slots_with parse xs))
   \<and> set (days (group_slots_with parse xs)) = {d. \<exists>s\<in>set xs. day_of parse s = Some d}
   \<and> sorted_wrt (\<lambda>a b. first_pos parse xs a < first_pos parse xs b)
        (days (group_slots_with parse xs))
   \<and> days (group_slots [''2024-06-11T14:00:00'', ''2024-06-10T09:00:00''])
        = [''Tuesday'', ''Monday'']"
proof -
  have ex: "days (group_slots [''2024-06-11T14:00:00'', ''2024-06-10T09:00:00''])
        = [''Tuesday'', ''Monday'']"
    by code_simp
  have k: "days (group_slots_with parse xs)
      = dict_keys (grouped_slots (group_slots_with parse xs))"
    by (simp only: result_keys)
  have d: "distinct (days (group_slots_with parse xs))"
    by (simp add: result_days distinct_foldl_add_key)
  have m: "set (days (group_slots_with parse xs))
      = {d. \<exists>s\<in>set xs. day_of parse s = Some d}"
    by (simp add: result_days set_foldl_add_key set_days_seen)
  have o: "sorted_wrt (\<lambda>a b. first_pos parse xs a < first_pos parse xs b)
        (days (group_slots_with parse xs))"
    by (simp only: result_days keys_sorted_by_first_pos)
  show ?thesis
    by (intro conjI) (rule k d m o ex)+
qed

theorem days_first_insertion_order_witness:
  "sorted_wrt
     (\<lambda>a b. first_pos fromisoformat [''2024-06-11T14:00:00'', ''2024-06-10T09:00:00''] a
           < first_pos fromisoformat [''2024-06-11T14:00:00'', ''2024-06-10T09:00:00''] b)
     [''Tuesday'', ''Monday'']"
proof -
  let ?xs = "[''2024-06-11T14:00:00'', ''2024-06-10T09:00:00'']"
  have eq: "days (group_slots_with fromisoformat ?xs) = [''Tuesday'', ''Monday'']"
    unfolding group_slots_def [symmetric] by code_simp
  have "sorted_wrt
     (\<lambda>a b. first_pos fromisoformat ?xs a < first_pos fromisoformat ?xs b)
     (days (group_slots_with fromisoformat ?xs))"
    by (rule days_first_insertion_order
        [of fromisoformat ?xs, THEN conjunct2, THEN conjunct2, THEN conjunct2, THEN conjunct1])
  then show ?thesis
    unfolding eq .
qed

text \<open>
  C8. A weekday is a key of the grouped mapping exactly when some valid entry of the
  input falls on it, and every weekday's record has the keys morning and afternoon.
  When a valid entry arrives whose weekday is not yet a key, the record stored for that
  weekday afterwards holds this entry in its period's bucket and an empty list in the
  other. A valid entry is appended as it was given, to its bucket and to the fallback
  list; nothing else is ever stored.
\<close>

theorem weekday_keys_and_buckets:
  "(d \<in> set (dict_keys (grouped_slots (group_slots_with parse xs))))
     = (\<exists>s\<in>set xs. day_of parse s = Some d)
   \<and> (map_of (grouped_slots (group_slots_with parse xs)) d = Some rec \<longrightarrow>
        map fst rec = [''morning'', ''afternoon''])
   \<and> (parse s = Inr dt \<and> \<not> dict_contains (strftime_A dt) (grouped (run_grouping parse st xs)) \<longrightarrow>
        map_of (grouped (run_grouping parse st (xs @ [s]))) (strftime_A dt)
          = Some [(''morning'', if classify_slot dt = ''morning'' then [s] else []),
                  (''afternoon'', if classify_slot dt = ''afternoon'' then [s] else [])])
   \<and> (parse s = Inr dt \<longrightarrow>
        fallback (run_grouping parse st (xs @ [s])) = fallback (run_grouping parse st xs) @ [s]
        \<and> bucket (grouped (run_grouping parse st (xs @ [s]))) (strftime_A dt) (classify_slot dt)
            = bucket (grouped (run_grouping parse st xs)) (strftime_A dt) (classify_slot dt) @ [s])
   \<and> set (fallback_out (group_slots_with parse xs)) \<subseteq> set xs
   \<and> set (all_grouped (grouped_slots (group_slots_with parse xs))) \<subseteq> set xs"
proof -
  have keys: "(d \<in> set (dict_keys (grouped_slots (group_slots_with parse xs))))
     = (\<exists>s\<in>set xs. day_of parse s = Some d)"
    by (simp add: result_keys result_days set_foldl_add_key set_days_seen)
  have recs: "map fst rec = [''morning'', ''afternoon'']"
    if "map_of (grouped_slots (group_slots_with parse xs)) d = Some rec"
    using wf_lookup [OF result_wf that] by (simp add: day_record_ok_def)
  have first: "map_of (grouped (run_grouping parse st (xs @ [s]))) (strftime_A dt)
          = Some [(''morning'', if classify_slot dt = ''morning'' then [s] else []),
                  (''afternoon'', if classify_slot dt = ''afternoon'' then [s] else [])]"
    if "parse s = Inr dt" "\<not> dict_contains (strftime_A dt) (grouped (run_grouping parse st xs))"
    unfolding run_grouping_snoc using run_grouping_wf that by (rule step_first_occurrence)
  have raw: "fallback (run_grouping parse st (xs @ [s])) = fallback (run_grouping parse st xs) @ [s]
        \<and> bucket (grouped (run_grouping parse st (xs @ [s]))) (strftime_A dt) (classify_slot dt)
            = bucket (grouped (run_grouping parse st xs)) (strftime_A dt) (classify_slot dt) @ [s]"
    if "parse s = Inr dt"
    unfolding run_grouping_snoc
    using step_valid(2) [of "run_grouping parse st xs" parse s dt]
      step_valid(4) [of "run_grouping parse st xs" parse s dt "strftime_A dt" "classify_slot dt"]
      run_grouping_wf [of parse st xs] that
    by simp
  have "set (all_grouped (grouped_slots (group_slots_with parse xs)))
          = set (filter (is_valid parse) xs)"
    using result_mset [of parse xs] by (rule mset_eq_setD)
  then have sub: "set (fallback_out (group_slots_with parse xs)) \<subseteq> set xs
   \<and> set (all_grouped (grouped_slots (group_slots_with parse xs))) \<subseteq> set xs"
    by (simp add: result_fallback)
  have recs': "map_of (grouped_slots (group_slots_with parse xs)) d = Some rec \<longrightarrow>
        map fst rec = [''morning'', ''afternoon'']"
    by (rule impI) (rule recs)
  have first': "parse s = Inr dt
        \<and> \<not> dict_contains (strftime_A dt) (grouped (run_grouping parse st xs)) \<longrightarrow>
        map_of (grouped (run_grouping parse st (xs @ [s]))) (strftime_A dt)
          = Some [(''morning'', if classify_slot dt = ''morning'' then [s] else []),
                  (''afternoon'', if classify_slot dt = ''afternoon'' then [s] else [])]"
    by (rule impI, elim conjE, rule first)
  have raw': "parse s = Inr dt \<longrightarrow>
        fallback (run_grouping parse st (xs @ [s])) = fallback (run_grouping parse st xs) @ [s]
        \<and> bucket (grouped (run_grouping parse st (xs @ [s]))) (strftime_A dt) (classify_slot dt)
            = bucket (grouped (run_grouping parse st xs)) (strftime_A dt) (classify_slot dt) @ [s]"
    by (rule impI) (rule raw)
  show ?thesis
    by (rule conjI [OF keys conjI [OF recs' conjI [OF first' conjI [OF raw' sub]]]])
qed

theorem weekday_keys_and_buckets_witness:
  "fromisoformat ''2024-06-10T09:00:00'' =
     Inr \<lparr>year = 2024, month = 6, day = 10, hour = 9, minute = 0, second = 0,
          microsecond = 0, tzinfo = None\<rparr>
   \<and> \<not> dict_contains ''Monday'' (grouped (run_grouping fromisoformat
          \<lparr>grouped = [], fallback = []\<rparr> [''2024-06-11T14:00:00'']))
   \<and> map_of (grouped (run_grouping fromisoformat \<lparr>grouped = [], fallback = []\<rparr>
          ([''2024-06-11T14:00:00''] @ [''2024-06-10T09:00:00'']))) ''Monday''
       = Some [(''morning'', [''2024-06-10T09:00:00'']), (''afternoon'', [])]"
proof -
  let ?dt = "\<lparr>year = 2024, month = 6, day = 10, hour = 9, minute = 0, second = 0,
          microsecond = 0, tzinfo = None\<rparr>"
  let ?st = "\<lparr>grouped = [], fallback = []\<rparr>"
  have p: "fromisoformat ''2024-06-10T09:00:00'' = Inr ?dt"
    by code_simp
  have wd: "strftime_A ?dt = ''Monday''"
    by code_simp
  have cl: "classify_slot ?dt = ''morning''"
    by code_simp
  have new: "\<not> dict_contains ''Monday'' (grouped (run_grouping fromisoformat ?st
      [''2024-06-11T14:00:00'']))"
    by code_simp
  have "fromisoformat ''2024-06-10T09:00:00'' = Inr ?dt
      \<and> \<not> dict_contains (strftime_A ?dt) (grouped (run_grouping fromisoformat ?st
          [''2024-06-11T14:00:00'']))"
    using p new unfolding wd by (rule conjI)
  then have "map_of (grouped (run_grouping fromisoformat ?st
          ([''2024-06-11T14:00:00''] @ [''2024-06-10T09:00:00'']))) (strftime_A ?dt)
       = Some [(''morning'', if classify_slot ?dt = ''morning'' then [''2024-06-10T09:00:00''] else []),
               (''afternoon'', if classify_slot ?dt = ''afternoon'' then [''2024-06-10T09:00:00''] else [])]"
    by (rule weekday_keys_and_buckets
        [where parse = fromisoformat and xs = "[''2024-06-11T14:00:00'']"
           and s = "''2024-06-10T09:00:00''" and dt = ?dt and st = ?st,
         THEN conjunct2, THEN conjunct2, THEN conjunct1, THEN mp])
  then have "map_of (grouped (run_grouping fromisoformat ?st
          ([''2024-06-11T14:00:00''] @ [''2024-06-10T09:00:00'']))) ''Monday''
       = Some [(''morning'', [''2024-06-10T09:00:00'']), (''afternoon'', [])]"
    unfolding wd cl by simp
  with p new show ?thesis
    by (intro conjI)
qed

section \<open>Which strings are accepted\<close>




















end
